theory Spec2Isabelle
  imports Main "HOL-Library.Word"
begin

unbundle bit_operations_syntax

section \<open>Data model of DHT.go\<close>

text \<open>
  A \<^verbatim>\<open>*Peer\<close> is an address or nil. The heap gives the \<^verbatim>\<open>Peer\<close> struct stored at
  every address: Go is garbage collected, so a pointer that is not nil always points to
  a live struct, and the heap is a total function. Peers may point to each other in
  any way, cycles included.
\<close>

type_synonym addr = nat

type_synonym ptr = "addr option"

record Bucket =
  nodes :: "ptr list"

record DHT =
  buckets :: "Bucket list"

record Peer =
  peer_id :: string
  peer_buckets :: "Bucket list"
  dht :: DHT

type_synonym heap = "addr \<Rightarrow> Peer"

text \<open>
  The only run-time panic the functions below can raise is the dereference of a nil
  \<^verbatim>\<open>*Peer\<close> (\<^verbatim>\<open>peer.id\<close>, \<^verbatim>\<open>node.id\<close>, \<^verbatim>\<open>node.dht\<close>). Unbounded recursion, which Go ends
  with a fatal stack overflow, is modelled as a call that does not return.
\<close>

datatype error = NilDereference

section \<open>Identifiers and distance\<close>

text \<open>
  \<^verbatim>\<open>big.Int.SetString(s, 16)\<close> of the Go library: an optional sign, then digits of
  base 16 in either case. The source ignores the success flag and goes on with the
  receiver; for a string that is not wholly a numeral the library documents the value as
  undefined, and its implementation leaves the numeral scanned so far, which is what
  \<open>setString16\<close> returns.
\<close>

definition digit16 :: "char \<Rightarrow> nat option" where
  "digit16 ch =
     (let c = (of_char ch :: nat);
          d1 = (if 48 \<le> c \<and> c \<le> 57 then c - 48
                else if 97 \<le> c \<and> c \<le> 122 then c - 97 + 10
                else if 65 \<le> c \<and> c \<le> 90 then c - 65 + 10
                else 63)
      in if d1 \<ge> 16 then None else Some d1)"

fun scanDigits :: "int \<Rightarrow> string \<Rightarrow> int" where
  "scanDigits z [] = z"
| "scanDigits z (ch # r) =
     (case digit16 ch of
        None \<Rightarrow> z
      | Some d1 \<Rightarrow> scanDigits (z * 16 + int d1) r)"

definition setString16 :: "string \<Rightarrow> int" where
  "setString16 s =
     (case s of
        [] \<Rightarrow> 0
      | ch # r \<Rightarrow>
          if ch = CHR ''-'' then - scanDigits 0 r
          else if ch = CHR ''+'' then scanDigits 0 r
          else scanDigits 0 s)"

text \<open>
  \<^verbatim>\<open>Int64()\<close> keeps the low 64 bits of the magnitude and applies the sign, which is the
  two's complement reading of the number modulo \<open>2 ^ 64\<close>; \<^verbatim>\<open>int\<close> is the 64-bit integer
  of the platforms Go is commonly built for.
\<close>

definition int64 :: "int \<Rightarrow> int" where
  "int64 x = sint (word_of_int x :: 64 word)"

definition calculateDistance :: "string \<Rightarrow> string \<Rightarrow> int" where
  "calculateDistance id1 id2 =
     (let num1 = setString16 id1;
          num2 = setString16 id2;
          distance = num1 XOR num2
      in int64 distance)"

section \<open>The routing table\<close>

text \<open>The two nested loops of \<^verbatim>\<open>containsKey\<close>; \<^verbatim>\<open>peer.id\<close> panics on a nil entry.\<close>

fun containsKey_nodes :: "heap \<Rightarrow> ptr list \<Rightarrow> string \<Rightarrow> error + bool" where
  "containsKey_nodes h [] key = Inr False"
| "containsKey_nodes h (None # ps) key = Inl NilDereference"
| "containsKey_nodes h (Some a # ps) key =
     (if peer_id (h a) = key then Inr True else containsKey_nodes h ps key)"

fun containsKey_buckets :: "heap \<Rightarrow> Bucket list \<Rightarrow> string \<Rightarrow> error + bool" where
  "containsKey_buckets h [] key = Inr False"
| "containsKey_buckets h (bucket # bs) key =
     (case containsKey_nodes h (nodes bucket) key of
        Inl e \<Rightarrow> Inl e
      | Inr True \<Rightarrow> Inr True
      | Inr False \<Rightarrow> containsKey_buckets h bs key)"

definition containsKey :: "heap \<Rightarrow> DHT \<Rightarrow> string \<Rightarrow> error + bool" where
  "containsKey h d key = containsKey_buckets h (buckets d) key"

definition findOwnNode :: "DHT \<Rightarrow> ptr" where
  "findOwnNode d =
     (case buckets d of
        [] \<Rightarrow> None
      | b0 # _ \<Rightarrow> (case nodes b0 of [] \<Rightarrow> None | n0 # _ \<Rightarrow> n0))"

text \<open>Go compares strings byte by byte.\<close>

fun string_less :: "string \<Rightarrow> string \<Rightarrow> bool" where
  "string_less [] [] = False"
| "string_less [] (y # ys) = True"
| "string_less (x # xs) [] = False"
| "string_less (x # xs) (y # ys) =
     ((of_char x :: nat) < of_char y \<or> (x = y \<and> string_less xs ys))"

text \<open>
  \<^verbatim>\<open>sort.SliceStable\<close>: a stable sort, so its result is the one of insertion sort that
  puts an element in front of the first one that is not less than it.
\<close>

fun insert_by :: "('a \<Rightarrow> 'a \<Rightarrow> bool) \<Rightarrow> 'a \<Rightarrow> 'a list \<Rightarrow> 'a list" where
  "insert_by by x [] = [x]"
| "insert_by by x (y # ys) =
     (if by y x then y # insert_by by x ys else x # y # ys)"

definition sortPeerSlice :: "('a \<Rightarrow> 'a \<Rightarrow> bool) \<Rightarrow> 'a list \<Rightarrow> 'a list" where
  "sortPeerSlice by ns = foldr (insert_by by) ns []"

text \<open>The comparison closure that \<^verbatim>\<open>findNearestNodes\<close> hands to the sort.\<close>

definition nearer :: "heap \<Rightarrow> string \<Rightarrow> addr \<Rightarrow> addr \<Rightarrow> bool" where
  "nearer h key p1 p2 =
     (let distanceA = calculateDistance (peer_id (h p1)) key;
          distanceB = calculateDistance (peer_id (h p2)) key
      in if distanceA \<noteq> distanceB then distanceA < distanceB
         else string_less (peer_id (h p1)) (peer_id (h p2)))"

text \<open>
  \<^verbatim>\<open>findNearestNodes\<close>. The comparison and the filtering loop read \<^verbatim>\<open>id\<close> through every
  pointer of the table, so one nil entry makes the call panic; otherwise the result holds
  no nil pointer and is given as a list of addresses.
\<close>

definition findNearestNodes :: "heap \<Rightarrow> DHT \<Rightarrow> string \<Rightarrow> error + addr list" where
  "findNearestNodes h d key =
     (case findOwnNode d of
        None \<Rightarrow> Inr []
      | Some ownNode \<Rightarrow>
          (let distanceToKey = calculateDistance (peer_id (h ownNode)) key;
               allNodes = concat (map nodes (buckets d))
           in case those allNodes of
                None \<Rightarrow> Inl NilDereference
              | Some ps \<Rightarrow>
                  (let sortedNodes = sortPeerSlice (nearer h key) ps;
                       nearestNodes =
                         filter (\<lambda>node. calculateDistance (peer_id (h node)) key \<le> distanceToKey)
                           sortedNodes
                   in Inr (take (min 2 (length nearestNodes)) nearestNodes))))"

section \<open>Hashing\<close>

text \<open>
  \<^verbatim>\<open>md5.Sum\<close> belongs to the Go library, not to this program: it is the parameter
  \<open>md5Sum\<close>, from the bytes of a string to the bytes of its digest. What the program
  adds is \<^verbatim>\<open>fmt.Sprintf("%x", hash)\<close>: two lower-case hexadecimal digits for each byte.
\<close>

definition hexDigit :: "nat \<Rightarrow> char" where
  "hexDigit n = ''0123456789abcdef'' ! (n mod 16)"

definition hexByte :: "char \<Rightarrow> string" where
  "hexByte b = [hexDigit ((of_char b :: nat) div 16), hexDigit ((of_char b :: nat) mod 16)]"

definition hashValue :: "(string \<Rightarrow> string) \<Rightarrow> string \<Rightarrow> string" where
  "hashValue md5Sum val = concat (map hexByte (md5Sum val))"

section \<open>Store and retrieve\<close>

text \<open>
  Every \<^verbatim>\<open>*DHT\<close> the program calls a method on is the \<^verbatim>\<open>dht\<close> field of a peer
  (\<^verbatim>\<open>ownNode.dht\<close>, \<^verbatim>\<open>node.dht\<close>, \<^verbatim>\<open>randomNode.dht\<close>), so the receiver \<open>d\<close> is the
  address of that peer and \<^verbatim>\<open>d.buckets\<close> is read from the heap as \<open>buckets (dht (h d))\<close>.
  A call returns its value together with the heap it leaves; a call that panics returns
  \<open>Inl\<close>; a call that recurses without end returns nothing, which is \<open>None\<close>.
\<close>

type_synonym 'a result = "(error + 'a \<times> heap) option"

text \<open>The loop of \<^verbatim>\<open>getValue\<close> over the nearest nodes, and the final \<^verbatim>\<open>return ""\<close>.\<close>

fun getValue_nodes ::
  "(heap \<Rightarrow> addr \<Rightarrow> string result) \<Rightarrow> heap \<Rightarrow> addr list \<Rightarrow> string result" where
  "getValue_nodes recur h [] = Some (Inr ('''', h))"
| "getValue_nodes recur h (node # ns) =
     Option.bind (recur h node) (\<lambda>r. case r of
        Inl e \<Rightarrow> Some (Inl e)
      | Inr (val, h') \<Rightarrow>
          if val \<noteq> '''' then Some (Inr (val, h')) else getValue_nodes recur h' ns)"

lemma getValue_nodes_mono [partial_function_mono]:
  assumes G: "\<And>h n. mono_option (\<lambda>f. G f h n)"
  shows "mono_option (\<lambda>f. getValue_nodes (G f) h ns)"
proof (induction ns arbitrary: h)
  case Nil
  show ?case by (simp add: option.const_mono)
next
  case (Cons n ns)
  have rest: "mono_option (\<lambda>f. case y of
        Inl e \<Rightarrow> Some (Inl e)
      | Inr (val, h') \<Rightarrow>
          if val \<noteq> '''' then Some (Inr (val, h')) else getValue_nodes (G f) h' ns)" for y
  proof (cases y)
    case (Inl e)
    then show ?thesis by (simp add: option.const_mono)
  next
    case (Inr p)
    then show ?thesis
      by (cases p) (auto intro!: partial_function_mono Cons.IH)
  qed
  show ?case
    unfolding getValue_nodes.simps by (rule bind_mono [OF G rest])
qed

partial_function (option) getValue :: "heap \<Rightarrow> addr \<Rightarrow> string \<Rightarrow> string result" where
  "getValue h d key =
     (case findOwnNode (dht (h d)) of
        None \<Rightarrow>
          (case findNearestNodes h (dht (h d)) key of
             Inl e \<Rightarrow> Some (Inl e)
           | Inr nearestNodes \<Rightarrow>
               getValue_nodes (\<lambda>h' node. getValue h' node key) h nearestNodes)
      | Some ownNode \<Rightarrow>
          (case containsKey h (dht (h ownNode)) key of
             Inl e \<Rightarrow> Some (Inl e)
           | Inr held \<Rightarrow>
               if held then getValue h ownNode key
               else
                 (case findNearestNodes h (dht (h d)) key of
                    Inl e \<Rightarrow> Some (Inl e)
                  | Inr nearestNodes \<Rightarrow>
                      getValue_nodes (\<lambda>h' node. getValue h' node key) h nearestNodes)))"

text \<open>The loop of \<^verbatim>\<open>setValue\<close> over the nearest nodes, and the final \<^verbatim>\<open>return true\<close>.\<close>

fun setValue_nodes ::
  "(heap \<Rightarrow> addr \<Rightarrow> bool result) \<Rightarrow> heap \<Rightarrow> addr list \<Rightarrow> bool result" where
  "setValue_nodes recur h [] = Some (Inr (True, h))"
| "setValue_nodes recur h (node # ns) =
     Option.bind (recur h node) (\<lambda>r. case r of
        Inl e \<Rightarrow> Some (Inl e)
      | Inr (_, h') \<Rightarrow> setValue_nodes recur h' ns)"

lemma setValue_nodes_mono [partial_function_mono]:
  assumes G: "\<And>h n. mono_option (\<lambda>f. G f h n)"
  shows "mono_option (\<lambda>f. setValue_nodes (G f) h ns)"
proof (induction ns arbitrary: h)
  case Nil
  show ?case by (simp add: option.const_mono)
next
  case (Cons n ns)
  have rest: "mono_option (\<lambda>f. case y of
        Inl e \<Rightarrow> Some (Inl e)
      | Inr (b, h') \<Rightarrow> setValue_nodes (G f) h' ns)" for y :: "error + bool \<times> heap"
  proof (cases y)
    case (Inl e)
    then show ?thesis by (simp add: option.const_mono)
  next
    case (Inr p)
    then show ?thesis
      by (cases p) (auto intro!: Cons.IH)
  qed
  show ?case
    unfolding setValue_nodes.simps by (rule bind_mono [OF G rest])
qed

partial_function (option) setValue ::
  "(string \<Rightarrow> string) \<Rightarrow> heap \<Rightarrow> addr \<Rightarrow> string \<Rightarrow> string \<Rightarrow> bool result" where
  "setValue md5Sum h d key val =
     (let hash = hashValue md5Sum key in
      if key \<noteq> hash then Some (Inr (False, h))
      else
        (case findOwnNode (dht (h d)) of
           None \<Rightarrow>
             (case findNearestNodes h (dht (h d)) key of
                Inl e \<Rightarrow> Some (Inl e)
              | Inr nearestNodes \<Rightarrow>
                  setValue_nodes (\<lambda>h' node. setValue md5Sum h' node key val) h nearestNodes)
         | Some ownNode \<Rightarrow>
             (case containsKey h (dht (h ownNode)) key of
                Inl e \<Rightarrow> Some (Inl e)
              | Inr held \<Rightarrow>
                  if held then Some (Inr (True, h))
                  else
                    Option.bind (setValue md5Sum h ownNode key val) (\<lambda>r. case r of
                       Inl e \<Rightarrow> Some (Inl e)
                     | Inr (_, h1) \<Rightarrow>
                         (case findNearestNodes h1 (dht (h1 d)) key of
                            Inl e \<Rightarrow> Some (Inl e)
                          | Inr nearestNodes \<Rightarrow>
                              setValue_nodes (\<lambda>h' node. setValue md5Sum h' node key val)
                                h1 nearestNodes)))))"

section \<open>Overlays used as examples\<close>

definition mkPeer :: "string \<Rightarrow> ptr list list \<Rightarrow> Peer" where
  "mkPeer i table =
     \<lparr>peer_id = i, peer_buckets = [], dht = \<lparr>buckets = map (\<lambda>ns. \<lparr>nodes = ns\<rparr>) table\<rparr>\<rparr>"

text \<open>
  The overlay \<^verbatim>\<open>main\<close> builds gives every peer the table of \<^verbatim>\<open>NewDHT()\<close>, which has
  no bucket.
\<close>

definition emptyOverlay :: heap where
  "emptyOverlay a = mkPeer ''0'' []"

text \<open>Peer A at address 0 knows B at address 1, whose table is empty.\<close>

definition chainOverlay :: heap where
  "chainOverlay a = (if a = 0 then mkPeer ''0f'' [[Some 1]] else mkPeer ''05'' [])"

definition chainRank :: "addr \<Rightarrow> nat" where
  "chainRank a = (if a = 0 then 1 else 0)"

text \<open>A 2-cycle: the table of A (address 0) holds B (address 1) and the table of B holds A.\<close>

definition cycleOverlay :: heap where
  "cycleOverlay a = (if a = 0 then mkPeer ''0f'' [[Some 1]] else mkPeer ''05'' [[Some 0]])"

text \<open>The same 2-cycle with every peer at the head of its own table, as its own node.\<close>

definition selfCycleOverlay :: heap where
  "selfCycleOverlay a =
     (if a = 0 then mkPeer ''0f'' [[Some 0, Some 1]] else mkPeer ''05'' [[Some 1, Some 0]])"




text \<open>
  Peer A (address 0) is the own node of its table, which also holds a peer P (address 1)
  whose identifier is wider than 63 bits: 16 digits in the first overlay, and the 32
  digits of a hash in the second.
\<close>

definition farOverlay :: heap where
  "farOverlay a =
     (if a = 0 then mkPeer ''0f'' [[Some 0, Some 1]] else mkPeer ''ffffffffffffffff'' [])"

definition farHashOverlay :: heap where
  "farHashOverlay a =
     (if a = 0 then mkPeer ''0000000000000000000000000000000f'' [[Some 0, Some 1]]
      else mkPeer ''00000000000000010000000000000000'' [])"

text \<open>
  No string is known that equals the hexadecimal form of its own MD5 digest. To follow
  \<^verbatim>\<open>setValue\<close> past its first check, the examples put a constant function in the place
  of \<^verbatim>\<open>md5.Sum\<close>: its digest is sixteen zero bytes, and \<open>zeroKey\<close> is the key that
  equals its own hash under it.
\<close>

definition constSum :: "string \<Rightarrow> string" where
  "constSum s = replicate 16 (CHR 0x00)"

definition zeroKey :: string where
  "zeroKey = ''00000000000000000000000000000000''"

section \<open>Auxiliary facts\<close>

lemma hashValue_zeroKey: "hashValue constSum zeroKey = zeroKey"
  by code_simp

lemma length_hashValue: "length (hashValue md5Sum val) = 2 * length (md5Sum val)"
  by (simp add: hashValue_def hexByte_def length_concat comp_def sum_list_triv)

lemma distances:
  "calculateDistance ''0f'' ''00'' = 15"
  "calculateDistance ''05'' ''00'' = 5"
  "calculateDistance ''0F'' ''00'' = 15"
  "calculateDistance ''0A'' ''00'' = 10"
  "calculateDistance ''05'' zeroKey = 5"
  by (simp_all add: calculateDistance_def setString16_def digit16_def int64_def zeroKey_def)

text \<open>
  Below \<open>2 ^ 63\<close> nothing is lost: the distance is the XOR of the two numbers.
\<close>

lemma int64_small:
  assumes "- (2 ^ 63) \<le> x" "x < 2 ^ 63"
  shows "int64 x = x"
proof -
  have "int64 x = signed_take_bit 63 x"
    by (simp add: int64_def sint_sbintrunc')
  also have "\<dots> = x"
    using assms by (rule signed_take_bit_int_eq_self)
  finally show ?thesis .
qed

lemma calculateDistance_small:
  assumes "0 \<le> setString16 id1" "setString16 id1 < 2 ^ 63"
    and "0 \<le> setString16 id2" "setString16 id2 < 2 ^ 63"
  shows "calculateDistance id1 id2 = setString16 id1 XOR setString16 id2"
proof -
  have nonneg: "0 \<le> setString16 id1 XOR setString16 id2"
    using assms by simp
  have "- (2 ^ 63) \<le> (0 :: int)"
    by simp
  from this nonneg have lower: "- (2 ^ 63) \<le> setString16 id1 XOR setString16 id2"
    by (rule order_trans)
  have upper: "setString16 id1 XOR setString16 id2 < 2 ^ 63"
    using assms by (intro XOR_upper) simp_all
  from lower upper have "int64 (setString16 id1 XOR setString16 id2)
      = setString16 id1 XOR setString16 id2"
    by (rule int64_small)
  then show ?thesis
    by (simp add: calculateDistance_def Let_def)
qed

lemma emptyOverlay_at: "dht (emptyOverlay d) = \<lparr>buckets = []\<rparr>"
  by (simp add: emptyOverlay_def mkPeer_def)

lemma chainOverlay_at:
  "chainOverlay 0 = mkPeer ''0f'' [[Some 1]]"
  "d \<noteq> 0 \<Longrightarrow> chainOverlay d = mkPeer ''05'' []"
  by (simp_all add: chainOverlay_def)

lemma cycleOverlay_at:
  "cycleOverlay 0 = mkPeer ''0f'' [[Some 1]]"
  "d \<noteq> 0 \<Longrightarrow> cycleOverlay d = mkPeer ''05'' [[Some 0]]"
  by (simp_all add: cycleOverlay_def)

lemma selfCycleOverlay_at:
  "selfCycleOverlay 0 = mkPeer ''0f'' [[Some 0, Some 1]]"
  "d \<noteq> 0 \<Longrightarrow> selfCycleOverlay d = mkPeer ''05'' [[Some 1, Some 0]]"
  by (simp_all add: selfCycleOverlay_def)

text \<open>
  Whatever \<^verbatim>\<open>getValue\<close> returns is the empty string, and whatever \<^verbatim>\<open>setValue\<close> returns
  is the outcome of its first check; both leave the heap as it was.
\<close>

lemma getValue_nodes_result:
  assumes recur: "\<And>h n r. recur h n = Some r \<Longrightarrow> (\<exists>e. r = Inl e) \<or> r = Inr ('''', h)"
    and ret: "getValue_nodes recur h ns = Some r"
  shows "(\<exists>e. r = Inl e) \<or> r = Inr ('''', h)"
  using ret
proof (induction ns)
  case Nil
  then show ?case by simp
next
  case (Cons n ns)
  from Cons.prems obtain r1 where r1: "recur h n = Some r1"
    by (auto simp: bind_eq_Some_conv)
  from recur [OF r1] show ?case
  proof
    assume "\<exists>e. r1 = Inl e"
    with Cons.prems r1 show ?thesis by auto
  next
    assume "r1 = Inr ('''', h)"
    with Cons.prems r1 have "getValue_nodes recur h ns = Some r" by simp
    then show ?thesis by (rule Cons.IH)
  qed
qed

lemma getValue_result:
  "getValue h d key = Some r \<Longrightarrow> (\<exists>e. r = Inl e) \<or> r = Inr ('''', h)"
proof (induction h d key r rule: getValue.raw_induct [rotated, consumes 1, case_names body])
  case (body getValue h d key r)
  have loop: "(\<exists>e. r = Inl e) \<or> r = Inr ('''', h)"
    if "getValue_nodes (\<lambda>h' node. getValue h' node key) h ns = Some r" for ns
    using that by (rule getValue_nodes_result [rotated]) (rule body.IH)
  from body.hyps show ?case
    by (auto split: option.splits sum.splits if_splits dest: loop body.IH)
qed

lemma setValue_nodes_result:
  assumes recur: "\<And>h n r. recur h n = Some r \<Longrightarrow> (\<exists>e. r = Inl e) \<or> (\<exists>b. r = Inr (b, h))"
    and ret: "setValue_nodes recur h ns = Some r"
  shows "(\<exists>e. r = Inl e) \<or> r = Inr (True, h)"
  using ret
proof (induction ns)
  case Nil
  then show ?case by simp
next
  case (Cons n ns)
  from Cons.prems obtain r1 where r1: "recur h n = Some r1"
    by (auto simp: bind_eq_Some_conv)
  from recur [OF r1] show ?case
  proof
    assume "\<exists>e. r1 = Inl e"
    with Cons.prems r1 show ?thesis by auto
  next
    assume "\<exists>b. r1 = Inr (b, h)"
    with Cons.prems r1 have "setValue_nodes recur h ns = Some r" by auto
    then show ?thesis by (rule Cons.IH)
  qed
qed

lemma setValue_result:
  "setValue md5Sum h d key val = Some r \<Longrightarrow>
     (\<exists>e. r = Inl e) \<or> r = Inr (key = hashValue md5Sum key, h)"
proof (induction md5Sum h d key val r rule: setValue.raw_induct [rotated, consumes 1, case_names body])
  case (body setValue md5Sum h d key val r)
  have call: "(\<exists>e. r' = Inl e) \<or> (\<exists>b. r' = Inr (b, h'))"
    if "setValue md5Sum h' n key val = Some r'" for h' n r'
    using body.IH [of md5Sum h' n key val r', OF that] by auto
  have loop: "(\<exists>e. r = Inl e) \<or> r = Inr (True, h')"
    if "setValue_nodes (\<lambda>h' node. setValue md5Sum h' node key val) h' ns = Some r" for ns h'
    using that by (rule setValue_nodes_result [rotated]) (rule call)
  have nearest: "(\<exists>e. r = Inl e) \<or> r = Inr (True, h)"
    if "(case findNearestNodes h (dht (h d)) key of
           Inl e \<Rightarrow> Some (Inl e)
         | Inr nearestNodes \<Rightarrow>
             setValue_nodes (\<lambda>h' node. setValue md5Sum h' node key val) h nearestNodes) = Some r"
    using that by (cases "findNearestNodes h (dht (h d)) key") (auto dest: loop)
  show ?case
  proof (cases "key = hashValue md5Sum key")
    case False
    with body.hyps show ?thesis by (simp add: Let_def)
  next
    case True
    show ?thesis
    proof (cases "findOwnNode (dht (h d))")
      case None
      with body.hyps True nearest show ?thesis by (simp add: Let_def)
    next
      case (Some ownNode)
      show ?thesis
      proof (cases "containsKey h (dht (h ownNode)) key")
        case (Inl e)
        with body.hyps True Some show ?thesis by (auto simp: Let_def)
      next
        case (Inr held)
        show ?thesis
        proof (cases held)
          case True
          with body.hyps \<open>key = hashValue md5Sum key\<close> Some Inr show ?thesis
            by (auto simp: Let_def)
        next
          case False
          with body.hyps \<open>key = hashValue md5Sum key\<close> Some Inr
          obtain r1 where r1: "setValue md5Sum h ownNode key val = Some r1"
            and rest: "(case r1 of
                 Inl e \<Rightarrow> Some (Inl e)
               | Inr (_, h1) \<Rightarrow>
                   (case findNearestNodes h1 (dht (h1 d)) key of
                      Inl e \<Rightarrow> Some (Inl e)
                    | Inr nearestNodes \<Rightarrow>
                        setValue_nodes (\<lambda>h' node. setValue md5Sum h' node key val)
                          h1 nearestNodes)) = Some r"
            by (auto simp: Let_def bind_eq_Some_conv)
          from call [OF r1] show ?thesis
          proof
            assume "\<exists>e. r1 = Inl e"
            with rest show ?thesis by auto
          next
            assume "\<exists>b. r1 = Inr (b, h)"
            with rest nearest \<open>key = hashValue md5Sum key\<close> show ?thesis by auto
          qed
        qed
      qed
    qed
  qed
qed

lemma getValue_nodes_total:
  assumes "\<And>n. n \<in> set ns \<Longrightarrow>
      recur h n = Some (Inl NilDereference) \<or> recur h n = Some (Inr ('''', h))"
  shows "getValue_nodes recur h ns = Some (Inl NilDereference) \<or>
         getValue_nodes recur h ns = Some (Inr ('''', h))"
  using assms
proof (induction ns)
  case Nil
  show ?case by simp
next
  case (Cons n ns)
  have "recur h n = Some (Inl NilDereference) \<or> recur h n = Some (Inr ('''', h))"
    by (rule Cons.prems) simp
  then show ?case
  proof
    assume "recur h n = Some (Inl NilDereference)"
    then show ?thesis by simp
  next
    assume "recur h n = Some (Inr ('''', h))"
    moreover have "getValue_nodes recur h ns = Some (Inl NilDereference) \<or>
         getValue_nodes recur h ns = Some (Inr ('''', h))"
      by (rule Cons.IH) (simp add: Cons.prems)
    ultimately show ?thesis by simp
  qed
qed

text \<open>No call of \<^verbatim>\<open>getValue\<close> on either 2-cycle returns.\<close>

lemma getValue_cycleOverlay:
  assumes "getValue h d key = Some r"
  shows "\<not> (h = cycleOverlay \<and> key = ''00'')"
  using assms
proof (induction h d key r rule: getValue.raw_induct [rotated, consumes 1, case_names body])
  case (body getValue h d key r)
  show ?case
  proof
    assume at: "h = cycleOverlay \<and> key = ''00''"
    have nocall: "getValue cycleOverlay q ''00'' = None" for q
      using body.IH [of cycleOverlay q "''00''"] by (cases "getValue cycleOverlay q ''00''") auto
    from body.hyps at show False
      by (cases "d = 0")
        (simp_all add: cycleOverlay_at mkPeer_def findOwnNode_def containsKey_def
          findNearestNodes_def sortPeerSlice_def distances nocall)
  qed
qed

lemma getValue_selfCycleOverlay:
  assumes "getValue h d key = Some r"
  shows "\<not> (h = selfCycleOverlay \<and> key = ''00'')"
  using assms
proof (induction h d key r rule: getValue.raw_induct [rotated, consumes 1, case_names body])
  case (body getValue h d key r)
  show ?case
  proof
    assume at: "h = selfCycleOverlay \<and> key = ''00''"
    have nocall: "getValue selfCycleOverlay q ''00'' = None" for q
      using body.IH [of selfCycleOverlay q "''00''"]
      by (cases "getValue selfCycleOverlay q ''00''") auto
    from body.hyps at show False
      by (cases "d = 0")
        (simp_all add: selfCycleOverlay_at mkPeer_def findOwnNode_def containsKey_def
          findNearestNodes_def sortPeerSlice_def nearer_def distances nocall)
  qed
qed

text \<open>The calls on the chain, followed step by step.\<close>

lemma getValue_chainOverlay_tail:
  "d \<noteq> 0 \<Longrightarrow> getValue chainOverlay d key = Some (Inr ('''', chainOverlay))"
  by (subst getValue.simps)
    (simp add: chainOverlay_at mkPeer_def findOwnNode_def findNearestNodes_def)

lemma getValue_chainOverlay: "getValue chainOverlay 0 ''00'' = Some (Inr ('''', chainOverlay))"
  by (subst getValue.simps)
    (simp add: chainOverlay_at mkPeer_def findOwnNode_def findNearestNodes_def containsKey_def
      sortPeerSlice_def distances getValue_chainOverlay_tail)

lemma setValue_chainOverlay_tail:
  "d \<noteq> 0 \<Longrightarrow> setValue constSum chainOverlay d zeroKey val = Some (Inr (True, chainOverlay))"
  by (subst setValue.simps)
    (simp add: hashValue_zeroKey chainOverlay_at mkPeer_def findOwnNode_def findNearestNodes_def)

lemma setValue_chainOverlay:
  "setValue constSum chainOverlay 0 zeroKey val = Some (Inr (True, chainOverlay))"
  by (subst setValue.simps)
    (simp add: hashValue_zeroKey chainOverlay_at mkPeer_def findOwnNode_def findNearestNodes_def
      containsKey_def sortPeerSlice_def distances setValue_chainOverlay_tail)

text \<open>A hash has an even number of characters, so \<open>abc\<close> is not its own hash.\<close>

lemma hashValue_abc: "''abc'' \<noteq> hashValue md5Sum ''abc''"
proof
  assume "''abc'' = hashValue md5Sum ''abc''"
  then have "length ''abc'' = length (hashValue md5Sum ''abc'')" by simp
  then have "(3::nat) = 2 * length (md5Sum ''abc'')" by (simp add: length_hashValue)
  then show False by presburger
qed

lemma far_distances:
  "calculateDistance ''0f'' ''0'' = 15"
  "calculateDistance ''ffffffffffffffff'' ''0'' = - 1"
  "calculateDistance ''0000000000000000000000000000000f'' zeroKey = 15"
  "calculateDistance ''00000000000000010000000000000000'' zeroKey = 0"
  by (simp_all add: calculateDistance_def setString16_def digit16_def int64_def zeroKey_def)

text \<open>
  What the filter and the final slice of \<^verbatim>\<open>findNearestNodes\<close> give: at most two peers,
  each no farther from the key than the own node in the number \<^verbatim>\<open>calculateDistance\<close>
  returns; for identifiers below \<open>2 ^ 63\<close> that number is the XOR.
\<close>

lemma findNearestNodes_fanout:
  assumes "findNearestNodes h d key = Inr ns"
  shows "length ns \<le> 2 \<and>
    (\<forall>n \<in> set ns. \<exists>ownNode. findOwnNode d = Some ownNode \<and>
       calculateDistance (peer_id (h n)) key \<le> calculateDistance (peer_id (h ownNode)) key)"
proof (cases "findOwnNode d")
  case None
  with assms show ?thesis by (simp add: findNearestNodes_def)
next
  case (Some ownNode)
  with assms obtain ps where
    ns: "ns = take (min 2 (length (filter (\<lambda>node. calculateDistance (peer_id (h node)) key
            \<le> calculateDistance (peer_id (h ownNode)) key) (sortPeerSlice (nearer h key) ps))))
          (filter (\<lambda>node. calculateDistance (peer_id (h node)) key
            \<le> calculateDistance (peer_id (h ownNode)) key) (sortPeerSlice (nearer h key) ps))"
    by (auto simp: findNearestNodes_def Let_def split: option.splits)
  have "length ns \<le> 2" by (simp add: ns)
  moreover have "calculateDistance (peer_id (h n)) key
      \<le> calculateDistance (peer_id (h ownNode)) key" if "n \<in> set ns" for n
    using that unfolding ns by (auto dest: in_set_takeD)
  ultimately show ?thesis using Some by simp
qed

lemma findNearestNodes_no_farther_small:
  assumes ret: "findNearestNodes h d key = Inr ns" and n: "n \<in> set ns"
    and own: "findOwnNode d = Some ownNode"
    and key: "0 \<le> setString16 key" "setString16 key < 2 ^ 63"
    and idn: "0 \<le> setString16 (peer_id (h n))" "setString16 (peer_id (h n)) < 2 ^ 63"
    and ido: "0 \<le> setString16 (peer_id (h ownNode))" "setString16 (peer_id (h ownNode)) < 2 ^ 63"
  shows "setString16 (peer_id (h n)) XOR setString16 key
      \<le> setString16 (peer_id (h ownNode)) XOR setString16 key"
proof -
  from findNearestNodes_fanout [OF ret] n own
  have "calculateDistance (peer_id (h n)) key \<le> calculateDistance (peer_id (h ownNode)) key"
    by auto
  moreover have "calculateDistance (peer_id (h n)) key
      = setString16 (peer_id (h n)) XOR setString16 key"
    using idn key by (rule calculateDistance_small)
  moreover have "calculateDistance (peer_id (h ownNode)) key
      = setString16 (peer_id (h ownNode)) XOR setString16 key"
    using ido key by (rule calculateDistance_small)
  ultimately show ?thesis by simp
qed

section \<open>The claims\<close>

subsection \<open>Retrieve on a cyclic overlay\<close>

text \<open>
  C1, as stated: on every overlay where the table of A holds B and the table of B holds A,
  \<^verbatim>\<open>getValue\<close> at A for a key that neither holds terminates with the empty string.
  \<^verbatim>\<open>getValue\<close> keeps no set of visited peers, and on both 2-cycles below the key
  \<open>00\<close> is held by neither table while the call at A does not return: A asks B, B asks
  A again, or a peer that is its own node asks itself.
\<close>

theorem getValue_cycle_diverges:
  "containsKey cycleOverlay (dht (cycleOverlay 0)) ''00'' = Inr False \<and>
   containsKey cycleOverlay (dht (cycleOverlay 1)) ''00'' = Inr False \<and>
   getValue cycleOverlay 0 ''00'' = None \<and>
   containsKey selfCycleOverlay (dht (selfCycleOverlay 0)) ''00'' = Inr False \<and>
   containsKey selfCycleOverlay (dht (selfCycleOverlay 1)) ''00'' = Inr False \<and>
   getValue selfCycleOverlay 0 ''00'' = None"
proof -
  have "getValue cycleOverlay 0 ''00'' = None"
    using getValue_cycleOverlay [of cycleOverlay 0 "''00''"]
    by (cases "getValue cycleOverlay 0 ''00''") auto
  moreover have "getValue selfCycleOverlay 0 ''00'' = None"
    using getValue_selfCycleOverlay [of selfCycleOverlay 0 "''00''"]
    by (cases "getValue selfCycleOverlay 0 ''00''") auto
  ultimately show ?thesis
    by (simp add: cycleOverlay_at selfCycleOverlay_at mkPeer_def containsKey_def)
qed

text \<open>
  C1, amended: \<^verbatim>\<open>getValue\<close> at A terminates when its lookups cannot come back to a
  peer: when A lies in a set of peers that the lookups do not leave and on which some rank
  falls strictly from each peer to its own node, if that node holds the key, and to each
  of its nearest nodes. It then returns the empty string and leaves the heap as it was,
  unless it panics on a nil entry.
\<close>

theorem getValue_terminates_ranked:
  fixes rank :: "addr \<Rightarrow> nat"
  assumes start: "p \<in> S"
    and own: "\<And>q ownNode. q \<in> S \<Longrightarrow> findOwnNode (dht (h q)) = Some ownNode \<Longrightarrow>
      containsKey h (dht (h ownNode)) key = Inr True \<Longrightarrow> ownNode \<in> S \<and> rank ownNode < rank q"
    and near: "\<And>q ns n. q \<in> S \<Longrightarrow> findNearestNodes h (dht (h q)) key = Inr ns \<Longrightarrow>
      n \<in> set ns \<Longrightarrow> n \<in> S \<and> rank n < rank q"
  shows "getValue h p key = Some (Inl NilDereference) \<or>
         getValue h p key = Some (Inr ('''', h))"
  using start
proof (induction "rank p" arbitrary: p rule: less_induct)
  case less
  have loop: "getValue_nodes (\<lambda>h' node. getValue h' node key) h ns = Some (Inl NilDereference) \<or>
      getValue_nodes (\<lambda>h' node. getValue h' node key) h ns = Some (Inr ('''', h))"
    if "findNearestNodes h (dht (h p)) key = Inr ns" for ns
  proof (rule getValue_nodes_total)
    fix n
    assume "n \<in> set ns"
    with near [OF less.prems that] have "n \<in> S" and "rank n < rank p"
      by simp_all
    then show "getValue h n key = Some (Inl NilDereference) \<or>
        getValue h n key = Some (Inr ('''', h))"
      by (simp add: less.hyps)
  qed
  have nearest: "(case findNearestNodes h (dht (h p)) key of
             Inl e \<Rightarrow> Some (Inl e)
           | Inr nearestNodes \<Rightarrow>
               getValue_nodes (\<lambda>h' node. getValue h' node key) h nearestNodes)
         \<in> {Some (Inl NilDereference), Some (Inr ('''', h))}"
  proof (cases "findNearestNodes h (dht (h p)) key")
    case (Inl e)
    then show ?thesis by (cases e) simp
  next
    case (Inr ns)
    with loop [OF Inr] show ?thesis by auto
  qed
  show ?case
  proof (cases "findOwnNode (dht (h p))")
    case None
    with nearest show ?thesis by (subst (1 2) getValue.simps) auto
  next
    case (Some ownNode)
    show ?thesis
    proof (cases "containsKey h (dht (h ownNode)) key")
      case (Inl e)
      with Some show ?thesis by (cases e) (simp add: getValue.simps [of h p])
    next
      case (Inr held)
      show ?thesis
      proof (cases held)
        case True
        with Some Inr own [OF less.prems, of ownNode]
        have "ownNode \<in> S" and "rank ownNode < rank p" by simp_all
        then have "getValue h ownNode key = Some (Inl NilDereference) \<or>
            getValue h ownNode key = Some (Inr ('''', h))"
          by (simp add: less.hyps)
        with Some Inr True show ?thesis by (subst (1 2) getValue.simps) auto
      next
        case False
        with Some Inr nearest show ?thesis by (subst (1 2) getValue.simps) auto
      qed
    qed
  qed
qed

theorem getValue_terminates_ranked_witness:
  "getValue chainOverlay 0 ''00'' = Some (Inl NilDereference) \<or>
   getValue chainOverlay 0 ''00'' = Some (Inr ('''', chainOverlay))"
proof (rule getValue_terminates_ranked [where rank = chainRank and S = "{0, 1}"])
  show "(0 :: addr) \<in> {0, 1}" by simp
next
  fix q ownNode
  assume "q \<in> {0, 1 :: addr}" and "findOwnNode (dht (chainOverlay q)) = Some ownNode"
    and "containsKey chainOverlay (dht (chainOverlay ownNode)) ''00'' = Inr True"
  then show "ownNode \<in> {0, 1} \<and> chainRank ownNode < chainRank q"
    by (auto simp add: chainOverlay_at mkPeer_def findOwnNode_def containsKey_def)
next
  fix q ns n
  assume "q \<in> {0, 1 :: addr}"
    and "findNearestNodes chainOverlay (dht (chainOverlay q)) ''00'' = Inr ns" and "n \<in> set ns"
  then show "n \<in> {0, 1} \<and> chainRank n < chainRank q"
    by (auto simp add: chainOverlay_at mkPeer_def findOwnNode_def findNearestNodes_def
        sortPeerSlice_def distances chainRank_def)
qed

subsection \<open>The integrity check\<close>

text \<open>
  C4: \<^verbatim>\<open>setValue\<close> returns false if and only if the key differs from its own hash: a key
  that differs is rejected at once, with the heap untouched, and for a key that equals its
  hash no call returns false.
\<close>

theorem setValue_rejects_iff:
  "(key \<noteq> hashValue md5Sum key \<longrightarrow> setValue md5Sum h d key val = Some (Inr (False, h))) \<and>
   (key = hashValue md5Sum key \<longrightarrow> (\<forall>h'. setValue md5Sum h d key val \<noteq> Some (Inr (False, h'))))"
proof (intro conjI impI allI)
  assume "key \<noteq> hashValue md5Sum key"
  then show "setValue md5Sum h d key val = Some (Inr (False, h))"
    by (subst setValue.simps) (simp add: Let_def)
next
  fix h'
  assume "key = hashValue md5Sum key"
  then show "setValue md5Sum h d key val \<noteq> Some (Inr (False, h'))"
    by (auto dest: setValue_result)
qed

theorem setValue_rejects_iff_witness:
  "setValue constSum chainOverlay 0 ''abc'' ''v'' = Some (Inr (False, chainOverlay)) \<and>
   setValue constSum chainOverlay 0 zeroKey ''v'' \<noteq> Some (Inr (False, chainOverlay))"
proof -
  have "setValue constSum chainOverlay 0 ''abc'' ''v'' = Some (Inr (False, chainOverlay))"
    using setValue_rejects_iff [of "''abc''" constSum chainOverlay 0 "''v''"]
      hashValue_abc [of constSum]
    by blast
  moreover have "setValue constSum chainOverlay 0 zeroKey ''v'' \<noteq> Some (Inr (False, chainOverlay))"
    using setValue_rejects_iff [of zeroKey constSum chainOverlay 0 "''v''"] hashValue_zeroKey
    by simp
  ultimately show ?thesis by (rule conjI)
qed

subsection \<open>Distance\<close>

text \<open>
  C5: the distance of two identifiers is their XOR over the full identifier width, never
  cut down to a narrower machine integer. \<^verbatim>\<open>calculateDistance\<close> computes the XOR on
  \<^verbatim>\<open>big.Int\<close> and then returns \<^verbatim>\<open>int(distance.Int64())\<close>. For two identifiers of 32
  hexadecimal digits, the length of a hash, whose XOR is \<open>2 ^ 64\<close> it returns 0, the
  distance of an identifier to itself; for the identifier farthest from zero it returns
  \<open>- 1\<close>, which \<^verbatim>\<open>findNearestNodes\<close> ranks in front of every other distance.
\<close>

theorem calculateDistance_truncates:
  "setString16 ''00000000000000010000000000000000''
     XOR setString16 ''00000000000000000000000000000000'' = 2 ^ 64 \<and>
   calculateDistance ''00000000000000010000000000000000'' ''00000000000000000000000000000000'' = 0 \<and>
   setString16 ''ffffffffffffffffffffffffffffffff''
     XOR setString16 ''00000000000000000000000000000000'' = 2 ^ 128 - 1 \<and>
   calculateDistance ''ffffffffffffffffffffffffffffffff'' ''00000000000000000000000000000000'' = - 1"
  by (simp add: calculateDistance_def setString16_def digit16_def int64_def)

subsection \<open>Nearest nodes\<close>

text \<open>
  C6: \<^verbatim>\<open>findNearestNodes\<close> returns at most two peers, none of them strictly farther
  from the key than the querying peer. The cap of two holds, and so does the bound in the
  number \<^verbatim>\<open>calculateDistance\<close> returns; but that number is the XOR cut to 64 signed
  bits, the defect of C5. With A of identifier \<open>0f\<close> as own node and the key \<open>0\<close>, A is
  at distance 15; the peer of identifier \<open>ffffffffffffffff\<close> is at distance \<open>2 ^ 64 - 1\<close>,
  the code takes it for \<open>- 1\<close> and returns it, in front of A. The same happens between
  identifiers of the length of a hash, at distance \<open>2 ^ 64\<close>, taken for 0.
\<close>

theorem findNearestNodes_returns_farther_peer:
  "findOwnNode (dht (farOverlay 0)) = Some 0 \<and>
   findNearestNodes farOverlay (dht (farOverlay 0)) ''0'' = Inr [1, 0] \<and>
   setString16 (peer_id (farOverlay 0)) XOR setString16 ''0'' = 15 \<and>
   setString16 (peer_id (farOverlay 1)) XOR setString16 ''0'' = 2 ^ 64 - 1 \<and>
   findOwnNode (dht (farHashOverlay 0)) = Some 0 \<and>
   findNearestNodes farHashOverlay (dht (farHashOverlay 0)) zeroKey = Inr [1, 0] \<and>
   setString16 (peer_id (farHashOverlay 0)) XOR setString16 zeroKey = 15 \<and>
   setString16 (peer_id (farHashOverlay 1)) XOR setString16 zeroKey = 2 ^ 64"
proof -
  have near: "findNearestNodes farOverlay (dht (farOverlay 0)) ''0'' = Inr [1, 0]"
    by (simp add: findNearestNodes_def findOwnNode_def farOverlay_def mkPeer_def
        sortPeerSlice_def nearer_def far_distances)
  have nearHash: "findNearestNodes farHashOverlay (dht (farHashOverlay 0)) zeroKey = Inr [1, 0]"
    by (simp add: findNearestNodes_def findOwnNode_def farHashOverlay_def mkPeer_def
        sortPeerSlice_def nearer_def far_distances)
  have xors:
    "setString16 (peer_id (farOverlay 0)) XOR setString16 ''0'' = 15"
    "setString16 (peer_id (farOverlay 1)) XOR setString16 ''0'' = 2 ^ 64 - 1"
    "setString16 (peer_id (farHashOverlay 0)) XOR setString16 zeroKey = 15"
    "setString16 (peer_id (farHashOverlay 1)) XOR setString16 zeroKey = 2 ^ 64"
    by (simp_all add: farOverlay_def farHashOverlay_def mkPeer_def setString16_def digit16_def
        zeroKey_def)
  have owns: "findOwnNode (dht (farOverlay 0)) = Some 0"
    "findOwnNode (dht (farHashOverlay 0)) = Some 0"
    by (simp_all add: findOwnNode_def farOverlay_def farHashOverlay_def mkPeer_def)
  from near nearHash xors owns show ?thesis by simp
qed




subsection \<open>The own node\<close>

text \<open>
  C8, as stated: \<^verbatim>\<open>findOwnNode\<close> returns the first entry of the first bucket that is not
  empty, and nil exactly when the table holds no peer. \<^verbatim>\<open>findOwnNode\<close> looks at the
  first bucket only: for a table whose first bucket is empty and whose second bucket holds
  a peer it returns nil.
\<close>

theorem findOwnNode_ignores_later_buckets:
  "findOwnNode \<lparr>buckets = [\<lparr>nodes = []\<rparr>, \<lparr>nodes = [Some 1]\<rparr>]\<rparr> = None \<and>
   concat (map nodes (buckets \<lparr>buckets = [\<lparr>nodes = []\<rparr>, \<lparr>nodes = [Some 1]\<rparr>]\<rparr>)) = [Some 1]"
  by (simp add: findOwnNode_def)

text \<open>
  C8, amended: \<^verbatim>\<open>findOwnNode\<close> returns the first entry of the first bucket; it returns
  nil exactly when the table has no bucket, its first bucket is empty, or that first entry
  is nil; and \<^verbatim>\<open>findNearestNodes\<close> returns the empty list whenever \<^verbatim>\<open>findOwnNode\<close>
  returns nil.
\<close>

theorem findOwnNode_first_bucket:
  "(findOwnNode d = None \<longleftrightarrow>
      buckets d = [] \<or> nodes (hd (buckets d)) = [] \<or> hd (nodes (hd (buckets d))) = None) \<and>
   (buckets d \<noteq> [] \<and> nodes (hd (buckets d)) \<noteq> [] \<longrightarrow>
      findOwnNode d = hd (nodes (hd (buckets d)))) \<and>
   (findOwnNode d = None \<longrightarrow> findNearestNodes h d key = Inr [])"
  by (auto simp: findOwnNode_def findNearestNodes_def split: list.splits)

theorem findOwnNode_first_bucket_witness:
  "findOwnNode \<lparr>buckets = [\<lparr>nodes = [Some 3, Some 4]\<rparr>]\<rparr> = Some 3 \<and>
   findNearestNodes emptyOverlay \<lparr>buckets = [\<lparr>nodes = []\<rparr>, \<lparr>nodes = [Some 1]\<rparr>]\<rparr> ''00'' = Inr []"
proof -
  have a: "buckets \<lparr>buckets = [\<lparr>nodes = [Some 3, Some 4]\<rparr>]\<rparr> \<noteq> [] \<and>
      nodes (hd (buckets \<lparr>buckets = [\<lparr>nodes = [Some (3::addr), Some 4]\<rparr>]\<rparr>)) \<noteq> []"
    by simp
  have b: "findOwnNode \<lparr>buckets = [\<lparr>nodes = []\<rparr>, \<lparr>nodes = [Some 1]\<rparr>]\<rparr> = None"
    by (simp add: findOwnNode_def)
  from findOwnNode_first_bucket [of "\<lparr>buckets = [\<lparr>nodes = [Some 3, Some 4]\<rparr>]\<rparr>"] a
  have "findOwnNode \<lparr>buckets = [\<lparr>nodes = [Some 3, Some 4]\<rparr>]\<rparr> = Some 3" by simp
  moreover from findOwnNode_first_bucket
    [of "\<lparr>buckets = [\<lparr>nodes = []\<rparr>, \<lparr>nodes = [Some 1]\<rparr>]\<rparr>" emptyOverlay "''00''"] b
  have "findNearestNodes emptyOverlay \<lparr>buckets = [\<lparr>nodes = []\<rparr>, \<lparr>nodes = [Some 1]\<rparr>]\<rparr> ''00''
      = Inr []" by blast
  ultimately show ?thesis by (rule conjI)
qed

subsection \<open>Not found and the empty value\<close>

text \<open>
  C9, as stated: a caller of \<^verbatim>\<open>getValue\<close> can tell "not found" from a value that is the
  empty string. On the chain no table holds the key \<open>00\<close>, and what the lookup at A
  returns for "not found" is the empty string itself.
\<close>

theorem getValue_not_found_is_empty_string:
  "containsKey chainOverlay (dht (chainOverlay 0)) ''00'' = Inr False \<and>
   containsKey chainOverlay (dht (chainOverlay 1)) ''00'' = Inr False \<and>
   getValue chainOverlay 0 ''00'' = Some (Inr ('''', chainOverlay))"
  by (simp add: getValue_chainOverlay chainOverlay_at mkPeer_def containsKey_def)

text \<open>
  C9, amended: \<^verbatim>\<open>getValue\<close> reports "not found" as the empty string, and every value it
  returns is the empty string.
\<close>

theorem getValue_returns_empty:
  assumes "getValue h d key = Some (Inr (v, h'))"
  shows "v = ''''"
  using getValue_result [OF assms] by simp

theorem getValue_returns_empty_witness:
  "getValue chainOverlay 1 ''05'' = Some (Inr ('''', chainOverlay))"
proof -
  have g: "getValue chainOverlay 1 ''05'' = Some (Inr ('''', chainOverlay))"
    by (simp add: getValue_chainOverlay_tail)
  show ?thesis using g getValue_returns_empty [OF g] by simp
qed

subsection \<open>Frame\<close>

text \<open>
  C10: neither \<^verbatim>\<open>getValue\<close> nor \<^verbatim>\<open>setValue\<close> changes any peer, bucket or table: the heap
  a call leaves is the heap it started from, so \<^verbatim>\<open>setValue\<close> records nothing anywhere.
\<close>

theorem getValue_setValue_frame:
  "(getValue h d key = Some (Inr (v, h')) \<longrightarrow> h' = h) \<and>
   (setValue md5Sum h d key val = Some (Inr (stored, h'')) \<longrightarrow> h'' = h)"
  by (auto dest: getValue_result setValue_result)

theorem getValue_setValue_frame_witness:
  "getValue chainOverlay 0 ''00'' = Some (Inr ('''', chainOverlay)) \<and>
   setValue constSum chainOverlay 0 zeroKey ''v'' = Some (Inr (True, chainOverlay))"
proof -
  have g: "getValue chainOverlay 0 ''00'' = Some (Inr ('''', chainOverlay))"
    by (rule getValue_chainOverlay)
  have s: "setValue constSum chainOverlay 0 zeroKey ''v'' = Some (Inr (True, chainOverlay))"
    by (rule setValue_chainOverlay)
  show ?thesis
    using g s getValue_setValue_frame
      [where h = chainOverlay and d = 0 and key = "''00''" and v = "''''" and h' = chainOverlay]
      getValue_setValue_frame
      [where h = chainOverlay and d = 0 and md5Sum = constSum and key = zeroKey
        and val = "''v''" and stored = True and h'' = chainOverlay]
    by simp
qed

end
